theory Spec2Isabelle
  imports Main "HOL-Library.AList"
begin

section \<open>Data model of \<open>project/base.ts\<close>\<close>

text \<open>
  The theory embeds the abstract class \<open>GraphQLProject\<close>: its private and protected
  fields become a record, every method becomes a function from the record to the
  updated record, and the collaborators the class only calls (the file system, the
  URI and path libraries, the document extractor, the abstract \<open>validate\<close> hook)
  are the fields of an environment record, so that every theorem holds for all of them.
\<close>

type_synonym DocumentUri = string
type_synonym path = string
type_synonym error = string
type_synonym handler = nat

record Position =
  line :: nat
  character :: nat

text \<open>A \<open>TextDocument\<close> of the language-server protocol, as \<open>TextDocument.create\<close> builds it.\<close>

record TextDocument =
  td_uri :: DocumentUri
  td_languageId :: string
  td_version :: int
  td_text :: string

definition TextDocument_create :: "DocumentUri \<Rightarrow> string \<Rightarrow> int \<Rightarrow> string \<Rightarrow> TextDocument" where
  "TextDocument_create uri languageId version contents =
     \<lparr>td_uri = uri, td_languageId = languageId, td_version = version, td_text = contents\<rparr>"

text \<open>How a call ends: it returns, or an exception leaves it.\<close>

datatype completion = Normal | Throw error

text \<open>The state of a \<open>Promise<void>\<close>.\<close>

datatype promise = Pending | Fulfilled | Rejected error

text \<open>
  What the class does to the outside world, in the order it does it: a call of the
  abstract \<open>validate()\<close>, a call of the registered diagnostics handler (always with
  an empty diagnostics array in this file), \<open>console.error\<close>, and
  \<open>loadingHandler.showError\<close>.
\<close>

datatype event =
  ValidateCalled
  | PublishDiagnostics handler DocumentUri
  | ConsoleError error
  | ShowError string

text \<open>
  The fields of the class. \<open>isReady\<close> is the private \<open>_isReady\<close> (the getter returns it
  unchanged), \<open>diagnosticsHandler\<close> is \<open>_onDiagnostics\<close>, and \<open>documentsByFile\<close> is the
  \<open>Map\<close>, kept as an association list in insertion order. Two more fields hold
  what the JavaScript runtime holds for the object: \<open>timers\<close> counts the callbacks
  \<open>() => this.validateIfNeeded()\<close> that \<open>setTimeout\<close> has queued and that have not run
  yet, and \<open>trace\<close> lists the outside effects so far.
\<close>

record 'doc project =
  isReady :: bool
  readyPromise :: promise
  needsValidation :: bool
  documentsByFile :: "(DocumentUri \<times> 'doc list) list"
  diagnosticsHandler :: "handler option"
  timers :: nat
  trace :: "event list"

text \<open>
  The collaborators. \<open>validate\<close> is the abstract hook: it sees the project and either
  returns or throws. The fields of the scheduler are private to the class and a call of
  the protected \<open>invalidate()\<close> from inside the hook finds the flag up and does
  nothing, so the hook is given no way to change them. \<open>allFiles\<close> is \<open>fileSet.allFiles()\<close>, \<open>fileUri\<close> is
  \<open>Uri.file(p).toString()\<close>, \<open>fsPath\<close> is \<open>Uri.parse(uri).fsPath\<close>, which throws on a
  string that is no URI, \<open>extname\<close> is Node's \<open>path.extname\<close>, \<open>readFileSync\<close> reads a
  file as UTF-8 or throws, \<open>extractGraphQLDocuments\<close> returns an array of documents
  or \<open>null\<close>, \<open>containsPosition\<close> is the method of \<open>GraphQLDocument\<close>, and
  \<open>showError\<close> is \<open>loadingHandler.showError\<close>, which returns or throws.
\<close>

record 'doc env =
  displayName :: string
  validate :: "'doc project \<Rightarrow> completion"
  allFiles :: "path list"
  fileUri :: "path \<Rightarrow> DocumentUri"
  fsPath :: "DocumentUri \<Rightarrow> error + path"
  extname :: "path \<Rightarrow> string"
  readFileSync :: "path \<Rightarrow> error + string"
  extractGraphQLDocuments :: "TextDocument \<Rightarrow> 'doc list option"
  containsPosition :: "'doc \<Rightarrow> Position \<Rightarrow> bool"
  showError :: "string \<Rightarrow> completion"

section \<open>The methods\<close>

text \<open>
  The table \<open>fileAssociations\<close>; a lookup of an extension that is no key gives
  \<open>undefined\<close>. The lookup is the one of the five own keys: \<open>path.extname\<close> returns
  the empty string or a string that begins with a dot, and the object inherits no
  property of such a name. Every value is a non-empty string, so the test
  \<open>!languageId\<close> holds exactly for a missing key.
\<close>

definition fileAssociations :: "string \<Rightarrow> string option" where
  "fileAssociations = map_of
     [(''.graphql'', ''graphql''),
      (''.js'', ''javascript''),
      (''.ts'', ''typescript''),
      (''.jsx'', ''javascriptreact''),
      (''.tsx'', ''typescriptreact'')]"

text \<open>
  The object as the constructor leaves it when it returns: \<open>_isReady = false\<close>,
  \<open>needsValidation = false\<close>, an empty map, no handler, and \<open>readyPromise\<close> still
  pending, because the continuations of \<open>Promise.all\<close> run in a later turn.
\<close>

definition construct :: "'doc project" where
  "construct =
     \<lparr>isReady = False, readyPromise = Pending, needsValidation = False,
      documentsByFile = [], diagnosticsHandler = None, timers = 0, trace = []\<rparr>"


definition onDiagnostics :: "handler \<Rightarrow> 'doc project \<Rightarrow> 'doc project" where
  "onDiagnostics h s = s\<lparr>diagnosticsHandler := Some h\<rparr>"

text \<open>
  \<open>invalidate\<close>: \<open>setTimeout\<close> queues one callback and the flag goes up, both only
  when the flag is down and the project is ready.
\<close>

definition invalidate :: "'doc project \<Rightarrow> 'doc project" where
  "invalidate s =
     (if \<not> needsValidation s \<and> isReady s
      then s\<lparr>timers := Suc (timers s), needsValidation := True\<rparr>
      else s)"

text \<open>
  \<open>validateIfNeeded\<close>: the call of \<open>validate()\<close> comes before the assignment
  \<open>needsValidation = false\<close> and no \<open>try\<close> surrounds it, so an exception of the hook
  leaves the method before the assignment.
\<close>

definition validateIfNeeded :: "'doc env \<Rightarrow> 'doc project \<Rightarrow> completion \<times> 'doc project" where
  "validateIfNeeded env s =
     (if \<not> needsValidation s \<or> \<not> isReady s then (Normal, s)
      else
        (let s1 = s\<lparr>trace := trace s @ [ValidateCalled]\<rparr> in
         case validate env s of
           Throw e \<Rightarrow> (Throw e, s1)
         | Normal \<Rightarrow> (Normal, s1\<lparr>needsValidation := False\<rparr>)))"

text \<open>One scheduled turn: the oldest queued callback leaves the queue and runs.\<close>

definition timer_turn :: "'doc env \<Rightarrow> 'doc project \<Rightarrow> completion \<times> 'doc project" where
  "timer_turn env s =
     (if timers s = 0 then (Normal, s)
      else validateIfNeeded env (s\<lparr>timers := timers s - 1\<rparr>))"

text \<open>
  The event loop runs the queued callbacks until none is left. The host is taken to
  go on after an exception that leaves a callback, so that the next callback runs.
\<close>

function run_pending_turns :: "'doc env \<Rightarrow> 'doc project \<Rightarrow> 'doc project" where
  "run_pending_turns env s =
     (if timers s = 0 then s else run_pending_turns env (snd (timer_turn env s)))"
  by pat_completeness auto
termination
  by (relation "measure (\<lambda>(env, s). timers s)")
     (auto simp: timer_turn_def validateIfNeeded_def Let_def split: completion.splits)

text \<open>The guarded call \<open>this._onDiagnostics({ uri, diagnostics: [] })\<close>.\<close>

definition publish_cleared :: "DocumentUri \<Rightarrow> 'doc project \<Rightarrow> 'doc project" where
  "publish_cleared uri s =
     (case diagnosticsHandler s of
        None \<Rightarrow> s
      | Some h \<Rightarrow> s\<lparr>trace := trace s @ [PublishDiagnostics h uri]\<rparr>)"

definition has_documents :: "'doc project \<Rightarrow> DocumentUri \<Rightarrow> bool" where
  "has_documents s uri = (map_of (documentsByFile s) uri \<noteq> None)"

definition removeGraphQLDocumentsFor :: "DocumentUri \<Rightarrow> 'doc project \<Rightarrow> 'doc project" where
  "removeGraphQLDocumentsFor uri s =
     (if has_documents s uri
      then invalidate
             (publish_cleared uri
                (s\<lparr>documentsByFile := AList.delete uri (documentsByFile s)\<rparr>))
      else s)"

definition fileWasDeleted :: "DocumentUri \<Rightarrow> 'doc project \<Rightarrow> 'doc project" where
  "fileWasDeleted uri s = removeGraphQLDocumentsFor uri s"

text \<open>
  \<open>documentDidChange\<close>: the test \<open>if (documents)\<close> is a test for \<open>null\<close>; every array,
  the empty one too, is truthy and takes the first branch.
\<close>

definition documentDidChange :: "'doc env \<Rightarrow> TextDocument \<Rightarrow> 'doc project \<Rightarrow> 'doc project" where
  "documentDidChange env document s =
     (case extractGraphQLDocuments env document of
        Some documents \<Rightarrow>
          invalidate
            (s\<lparr>documentsByFile := AList.update (td_uri document) documents (documentsByFile s)\<rparr>)
      | None \<Rightarrow> removeGraphQLDocumentsFor (td_uri document) s)"

text \<open>\<open>try { body } catch (error) { handler }\<close> over a state.\<close>

definition try_catch ::
  "('s \<Rightarrow> completion \<times> 's) \<Rightarrow> (error \<Rightarrow> 's \<Rightarrow> completion \<times> 's) \<Rightarrow> 's \<Rightarrow> completion \<times> 's" where
  "try_catch body handle s =
     (case body s of
        (Normal, s') \<Rightarrow> (Normal, s')
      | (Throw e, s') \<Rightarrow> handle e s')"

text \<open>
  \<open>fileDidChange\<close>: \<open>Uri.parse(uri).fsPath\<close> and \<open>extname\<close> run before the \<open>try\<close>
  block, so an exception of \<open>Uri.parse\<close> leaves the method; the \<open>try\<close> block holds
  the read and \<open>documentDidChange\<close>, and its handler is \<open>console.error(error)\<close>.
\<close>

definition fileDidChange :: "'doc env \<Rightarrow> DocumentUri \<Rightarrow> 'doc project \<Rightarrow> completion \<times> 'doc project" where
  "fileDidChange env uri s =
     (case fsPath env uri of
        Inl e \<Rightarrow> (Throw e, s)
      | Inr filePath \<Rightarrow>
          (let extension = extname env filePath
           in case fileAssociations extension of
                None \<Rightarrow> (Normal, s)
              | Some languageId \<Rightarrow>
                  try_catch
                    (\<lambda>s. case readFileSync env filePath of
                            Inl e \<Rightarrow> (Throw e, s)
                          | Inr contents \<Rightarrow>
                              (Normal,
                               documentDidChange env
                                 (TextDocument_create uri languageId (- 1) contents) s))
                    (\<lambda>e s. (Normal, s\<lparr>trace := trace s @ [ConsoleError e]\<rparr>))
                    s))"

text \<open>
  The loop of \<open>scanAllIncludedFiles\<close>. Its body has no \<open>await\<close>, so the whole loop
  runs in the turn of the call; \<open>loadingHandler.handle\<close> only receives the promise of
  the loop and is left out. The second component is a ghost list: the URIs on which
  the loop has called \<open>fileDidChange\<close>, in call order. Every URI of the loop is a
  result of \<open>Uri.file(filePath).toString()\<close>, which \<open>Uri.parse\<close> accepts, so inside the
  loop no exception leaves \<open>fileDidChange\<close> (lemma \<open>scan_calls_return\<close> below) and
  the loop goes on with the state that the call returns.
\<close>

fun scan_loop ::
  "'doc env \<Rightarrow> path list \<Rightarrow> 'doc project \<times> DocumentUri list \<Rightarrow> 'doc project \<times> DocumentUri list" where
  "scan_loop env [] (s, called) = (s, called)"
| "scan_loop env (filePath # rest) (s, called) =
     (let uri = fileUri env filePath in
      if has_documents s uri then scan_loop env rest (s, called)
      else scan_loop env rest (snd (fileDidChange env uri s), called @ [uri]))"

definition scanAllIncludedFiles :: "'doc env \<Rightarrow> 'doc project \<Rightarrow> 'doc project" where
  "scanAllIncludedFiles env s = fst (scan_loop env (allFiles env) (s, []))"

definition clearAllDiagnostics :: "'doc project \<Rightarrow> 'doc project" where
  "clearAllDiagnostics s =
     (case diagnosticsHandler s of
        None \<Rightarrow> s
      | Some h \<Rightarrow>
          s\<lparr>trace := trace s @ map (\<lambda>uri. PublishDiagnostics h uri) (map fst (documentsByFile s))\<rparr>)"

definition documentsAt :: "'doc project \<Rightarrow> DocumentUri \<Rightarrow> 'doc list option" where
  "documentsAt s uri = map_of (documentsByFile s) uri"

definition documentAt :: "'doc env \<Rightarrow> 'doc project \<Rightarrow> DocumentUri \<Rightarrow> Position \<Rightarrow> 'doc option" where
  "documentAt env s uri position =
     (case map_of (documentsByFile s) uri of
        None \<Rightarrow> None
      | Some queryDocuments \<Rightarrow>
          find (\<lambda>document. containsPosition env document position) queryDocuments)"

definition documents :: "'doc project \<Rightarrow> 'doc list" where
  "documents s = concat (map snd (documentsByFile s))"

subsection \<open>The constructor's promise chain\<close>

text \<open>
  \<open>Promise.all\<close> over the final states of the promises that \<open>initialize()\<close> returned:
  rejected as soon as one is rejected, fulfilled when all are, pending otherwise.
  The list is in array order and the first rejection of the list stands for the
  earliest one.
\<close>

fun promise_all :: "promise list \<Rightarrow> promise" where
  "promise_all [] = Fulfilled"
| "promise_all (Fulfilled # ps) = promise_all ps"
| "promise_all (Rejected e # ps) = Rejected e"
| "promise_all (Pending # ps) =
     (case promise_all ps of Rejected e \<Rightarrow> Rejected e | _ \<Rightarrow> Pending)"

definition promise_then ::
  "('s \<Rightarrow> completion \<times> 's) \<Rightarrow> promise \<times> 's \<Rightarrow> promise \<times> 's" where
  "promise_then cb ps =
     (case ps of
        (Pending, s) \<Rightarrow> (Pending, s)
      | (Rejected e, s) \<Rightarrow> (Rejected e, s)
      | (Fulfilled, s) \<Rightarrow>
          (case cb s of
             (Normal, s') \<Rightarrow> (Fulfilled, s')
           | (Throw e, s') \<Rightarrow> (Rejected e, s')))"

definition promise_catch ::
  "(error \<Rightarrow> 's \<Rightarrow> completion \<times> 's) \<Rightarrow> promise \<times> 's \<Rightarrow> promise \<times> 's" where
  "promise_catch cb ps =
     (case ps of
        (Pending, s) \<Rightarrow> (Pending, s)
      | (Fulfilled, s) \<Rightarrow> (Fulfilled, s)
      | (Rejected e, s) \<Rightarrow>
          (case cb e s of
             (Normal, s') \<Rightarrow> (Fulfilled, s')
           | (Throw e', s') \<Rightarrow> (Rejected e', s')))"

text \<open>The callback of \<open>.then\<close>: \<open>this._isReady = true; this.invalidate()\<close>.\<close>

definition on_initialized :: "'doc project \<Rightarrow> completion \<times> 'doc project" where
  "on_initialized s = (Normal, invalidate (s\<lparr>isReady := True\<rparr>))"

text \<open>
  The callback of \<open>.catch\<close>: \<open>console.error(error)\<close>, then
  \<open>loadingHandler.showError\<close> with the message. The callback ends as \<open>showError\<close>
  ends: when \<open>showError\<close> throws, the exception leaves the callback and rejects the
  promise that \<open>.catch\<close> returned. \<open>console.error\<close> is the runtime's and returns;
  \<open>displayName\<close> is the string that the abstract getter is declared to return, and
  the rejected value is modelled as the string that the template literal makes of it.
\<close>

definition init_error_message :: "'doc env \<Rightarrow> error \<Rightarrow> string" where
  "init_error_message env e =
     ''Error initializing Apollo GraphQL project '' @ [CHR 0x22] @ displayName env @ [CHR 0x22] @
     '': '' @ e"

definition on_init_error :: "'doc env \<Rightarrow> error \<Rightarrow> 'doc project \<Rightarrow> completion \<times> 'doc project" where
  "on_init_error env e s =
     (showError env (init_error_message env e),
      s\<lparr>trace := trace s @ [ConsoleError e, ShowError (init_error_message env e)]\<rparr>)"

text \<open>
  The promises of \<open>initialize()\<close> have reached the states \<open>inits\<close>: the chain
  \<open>Promise.all(...).then(...).catch(...)\<close> runs its callbacks and \<open>readyPromise\<close> takes
  the state of the last promise of the chain. A promise settles once: when
  \<open>readyPromise\<close> is no longer pending nothing runs again.
\<close>

definition settle_initialize :: "'doc env \<Rightarrow> promise list \<Rightarrow> 'doc project \<Rightarrow> 'doc project" where
  "settle_initialize env inits s =
     (if readyPromise s \<noteq> Pending then s
      else
        (case promise_catch (on_init_error env) (promise_then on_initialized (promise_all inits, s)) of
           (p, s') \<Rightarrow> s'\<lparr>readyPromise := p\<rparr>))"

subsection \<open>Everything that can happen to a project\<close>

datatype op =
  SettleInitialize "promise list"
  | TimerTurn
  | Invalidate
  | OnDiagnostics handler
  | FileDidChange DocumentUri
  | FileWasDeleted DocumentUri
  | DocumentDidChange TextDocument
  | ScanAllIncludedFiles
  | ClearAllDiagnostics

fun step :: "'doc env \<Rightarrow> op \<Rightarrow> 'doc project \<Rightarrow> 'doc project" where
  "step env (SettleInitialize inits) s = settle_initialize env inits s"
| "step env TimerTurn s = snd (timer_turn env s)"
| "step env Invalidate s = invalidate s"
| "step env (OnDiagnostics h) s = onDiagnostics h s"
| "step env (FileDidChange uri) s = snd (fileDidChange env uri s)"
| "step env (FileWasDeleted uri) s = fileWasDeleted uri s"
| "step env (DocumentDidChange document) s = documentDidChange env document s"
| "step env ScanAllIncludedFiles s = scanAllIncludedFiles env s"
| "step env ClearAllDiagnostics s = clearAllDiagnostics s"

text \<open>A history: each operation with the collaborators as they are when it runs.\<close>

fun run :: "('doc env \<times> op) list \<Rightarrow> 'doc project \<Rightarrow> 'doc project" where
  "run [] s = s"
| "run ((env, a) # rest) s = run rest (step env a s)"

text \<open>A synchronous burst of \<open>n\<close> calls of \<open>invalidate()\<close>.\<close>

fun burst :: "nat \<Rightarrow> 'doc project \<Rightarrow> 'doc project" where
  "burst 0 s = s"
| "burst (Suc n) s = burst n (invalidate s)"

definition validations :: "'doc project \<Rightarrow> nat" where
  "validations s = length (filter (\<lambda>e. e = ValidateCalled) (trace s))"

section \<open>Predicates and sample values for the theorems\<close>

subsection \<open>Predicates\<close>

text \<open>Every stored sequence of documents is non-empty.\<close>

definition nonempty_index :: "'doc project \<Rightarrow> bool" where
  "nonempty_index s = list_all (\<lambda>(uri, ds). ds \<noteq> []) (documentsByFile s)"

text \<open>
  The scan of \<open>files\<close> from \<open>s\<close>, seen at index \<open>i\<close>: the one call of \<open>fileDidChange\<close>
  when the URI of the \<open>i\<close>-th file has no entry in the project that the loop has
  reached there, no call otherwise.
\<close>

definition scan_call_at :: "'doc env \<Rightarrow> path list \<Rightarrow> 'doc project \<Rightarrow> nat \<Rightarrow> DocumentUri list" where
  "scan_call_at env files s i =
     (if has_documents (fst (scan_loop env (take i files) (s, []))) (fileUri env (files ! i))
      then [] else [fileUri env (files ! i)])"

text \<open>The project when the loop of \<open>scanAllIncludedFiles\<close> reaches the \<open>i\<close>-th enumerated file.\<close>

definition scan_reached :: "'doc env \<Rightarrow> 'doc project \<Rightarrow> nat \<Rightarrow> 'doc project" where
  "scan_reached env s i = fst (scan_loop env (take i (allFiles env)) (s, []))"

text \<open>The URIs on which a whole scan calls \<open>fileDidChange\<close>.\<close>

definition scan_calls :: "'doc env \<Rightarrow> 'doc project \<Rightarrow> DocumentUri list" where
  "scan_calls env s = snd (scan_loop env (allFiles env) (s, []))"

text \<open>
  The scheduler is consistent when the flag is up only in a ready project and
  exactly while one callback is queued.
\<close>

definition scheduler_consistent :: "'doc project \<Rightarrow> bool" where
  "scheduler_consistent s \<longleftrightarrow>
     (needsValidation s \<longrightarrow> isReady s) \<and> timers s = (if needsValidation s then 1 else 0)"

text \<open>The flag is never up in a project that is not ready.\<close>

definition flag_only_when_ready :: "'doc project \<Rightarrow> bool" where
  "flag_only_when_ready s \<longleftrightarrow> \<not> (needsValidation s \<and> \<not> isReady s)"

subsection \<open>Sample collaborators and projects\<close>

text \<open>
  A small world to run the methods in. A document is the pair of its first and last
  line. Four files are enumerated; \<open>/gone.js\<close> cannot be read; only the \<open>file\<close> URIs
  parse; the extractor finds one document in a \<open>graphql\<close> text and nothing (\<open>null\<close>)
  elsewhere; \<open>validate()\<close> and \<open>showError\<close> return.
\<close>

definition sample_env :: "(nat \<times> nat) env" where
  "sample_env =
     \<lparr>displayName = ''demo'',
      validate = (\<lambda>s. Normal),
      allFiles = [''/a.graphql'', ''/b.ts'', ''/notes.txt'', ''/gone.js''],
      fileUri = (\<lambda>p. ''file://'' @ p),
      fsPath =
        (\<lambda>uri. if take 7 uri = ''file://'' then Inr (drop 7 uri)
              else Inl ''[UriError]: Scheme contains illegal characters.''),
      extname = (\<lambda>p. dropWhile (\<lambda>c. c \<noteq> CHR ''.'') p),
      readFileSync = (\<lambda>p. if p = ''/gone.js'' then Inl ''ENOENT'' else Inr ''query { a }''),
      extractGraphQLDocuments =
        (\<lambda>d. if td_languageId d = ''graphql'' then Some [(0, 0)] else None),
      containsPosition = (\<lambda>d p. fst d \<le> line p \<and> line p \<le> snd d),
      showError = (\<lambda>message. Normal)\<rparr>"

text \<open>The same world with a \<open>validate()\<close> that throws.\<close>

definition throwing_env :: "(nat \<times> nat) env" where
  "throwing_env = sample_env\<lparr>validate := (\<lambda>s. Throw ''validation failed'')\<rparr>"


text \<open>The same world with an extractor that returns the empty array.\<close>

definition empty_array_env :: "(nat \<times> nat) env" where
  "empty_array_env = sample_env\<lparr>extractGraphQLDocuments := (\<lambda>d. Some [])\<rparr>"

text \<open>Two snapshots of the same file: one holds a document, the other none.\<close>

definition a_graphql :: TextDocument where
  "a_graphql =
     \<lparr>td_uri = ''file:///a.graphql'', td_languageId = ''graphql'', td_version = 1,
      td_text = ''query { a }''\<rparr>"

definition a_plain :: TextDocument where
  "a_plain =
     \<lparr>td_uri = ''file:///a.graphql'', td_languageId = ''plaintext'', td_version = 2,
      td_text = ''''\<rparr>"

text \<open>A project in which \<open>b.ts\<close> was opened in the editor before any scan.\<close>

definition b_open :: "(nat \<times> nat) project" where
  "b_open = construct\<lparr>documentsByFile := [(''file:///b.ts'', [(3, 4)])]\<rparr>"

text \<open>The project right after a successful initialization: ready, the flag up, one callback queued.\<close>

definition pending_ready :: "(nat \<times> nat) project" where
  "pending_ready = settle_initialize sample_env [Fulfilled, Fulfilled] construct"

text \<open>The project after that callback has run with a \<open>validate()\<close> that returned.\<close>

definition idle_ready :: "(nat \<times> nat) project" where
  "idle_ready =
     run [(sample_env, SettleInitialize [Fulfilled, Fulfilled]), (sample_env, TimerTurn)] construct"

text \<open>The project after that callback has run with a \<open>validate()\<close> that threw.\<close>

definition stuck_ready :: "(nat \<times> nat) project" where
  "stuck_ready =
     run [(sample_env, SettleInitialize [Fulfilled, Fulfilled]), (throwing_env, TimerTurn)] construct"

text \<open>The project after an initialization whose second subtask was rejected.\<close>

definition init_failed :: "(nat \<times> nat) project" where
  "init_failed = settle_initialize sample_env [Fulfilled, Rejected ''schema unreachable''] construct"


text \<open>
  The equation of \<open>run_pending_turns\<close> rewrites its own right-hand side; it is applied
  by hand.
\<close>

declare run_pending_turns.simps [simp del]

section \<open>Removal of documents\<close>

lemma has_documents_iff: "has_documents s uri \<longleftrightarrow> uri \<in> fst ` set (documentsByFile s)"
  by (simp add: has_documents_def map_of_eq_None_iff)

lemma has_documents_removed: "\<not> has_documents (removeGraphQLDocumentsFor uri s) uri"
  by (simp add: removeGraphQLDocumentsFor_def has_documents_def invalidate_def
      publish_cleared_def AList.delete_conv' split: option.splits)

text \<open>
  C7. Removing the documents of a file that has no entry changes nothing: the index,
  the trace (no diagnostics event) and the scheduler fields (no invalidation) are
  those of the state before, for \<open>removeGraphQLDocumentsFor\<close> and for
  \<open>fileWasDeleted\<close>; and a second removal of the same file changes nothing after
  the first.
\<close>

theorem remove_absent_noop:
  "(\<not> has_documents s uri \<longrightarrow>
      removeGraphQLDocumentsFor uri s = s \<and> fileWasDeleted uri s = s) \<and>
   removeGraphQLDocumentsFor uri (removeGraphQLDocumentsFor uri s) = removeGraphQLDocumentsFor uri s \<and>
   fileWasDeleted uri (fileWasDeleted uri s) = fileWasDeleted uri s"
proof -
  have absent: "removeGraphQLDocumentsFor uri t = t" if "\<not> has_documents t uri" for t :: "'a project"
    using that by (simp add: removeGraphQLDocumentsFor_def)
  have twice: "removeGraphQLDocumentsFor uri (removeGraphQLDocumentsFor uri s) = removeGraphQLDocumentsFor uri s"
    by (rule absent) (rule has_documents_removed)
  show ?thesis
    using absent [of s] twice by (simp add: fileWasDeleted_def)
qed

theorem remove_absent_noop_witness:
  "\<not> has_documents ((construct :: nat project)\<lparr>documentsByFile := [(''file:///b.graphql'', [1])]\<rparr>) ''file:///a.graphql'' \<and>
   removeGraphQLDocumentsFor ''file:///a.graphql''
     ((construct :: nat project)\<lparr>documentsByFile := [(''file:///b.graphql'', [1])]\<rparr>) =
   (construct :: nat project)\<lparr>documentsByFile := [(''file:///b.graphql'', [1])]\<rparr>"
  using remove_absent_noop
    [of "(construct :: nat project)\<lparr>documentsByFile := [(''file:///b.graphql'', [1])]\<rparr>" "''file:///a.graphql''"]
  by (simp add: has_documents_def construct_def)

section \<open>The scheduled turn\<close>

text \<open>
  C4 as stated fails when the hook throws: the scheduled turn runs with the flag up
  and the project ready, \<open>validate()\<close> throws, the exception leaves the turn and the
  flag is still up.
\<close>

theorem turn_throw_keeps_flag_counterexample:
  "timers pending_ready = 1 \<and> needsValidation pending_ready \<and> isReady pending_ready \<and>
   fst (timer_turn throwing_env pending_ready) = Throw ''validation failed'' \<and>
   needsValidation (snd (timer_turn throwing_env pending_ready))"
  by (simp add: pending_ready_def settle_initialize_def construct_def promise_catch_def
      promise_then_def on_initialized_def invalidate_def timer_turn_def validateIfNeeded_def
      throwing_env_def sample_env_def)

text \<open>
  C4, amended. When the scheduled turn runs with the flag up and the project ready,
  \<open>validate()\<close> is called once; if it returns, the flag is cleared; if it throws, the
  exception leaves the turn and the flag stays up.
\<close>

theorem turn_clears_flag_on_return:
  assumes "0 < timers s" "needsValidation s" "isReady s"
  shows "(validate env (s\<lparr>timers := timers s - 1\<rparr>) = Normal \<longrightarrow>
            timer_turn env s =
              (Normal, s\<lparr>timers := timers s - 1, trace := trace s @ [ValidateCalled],
                         needsValidation := False\<rparr>)) \<and>
         (validate env (s\<lparr>timers := timers s - 1\<rparr>) = Throw e \<longrightarrow>
            timer_turn env s =
              (Throw e, s\<lparr>timers := timers s - 1, trace := trace s @ [ValidateCalled]\<rparr>))"
  using assms by (simp add: timer_turn_def validateIfNeeded_def)

theorem turn_clears_flag_on_return_witness:
  "0 < timers pending_ready \<and> needsValidation pending_ready \<and> isReady pending_ready \<and>
   validate sample_env (pending_ready\<lparr>timers := timers pending_ready - 1\<rparr>) = Normal \<and>
   \<not> needsValidation (snd (timer_turn sample_env pending_ready)) \<and>
   validate throwing_env (pending_ready\<lparr>timers := timers pending_ready - 1\<rparr>) = Throw ''validation failed'' \<and>
   needsValidation (snd (timer_turn throwing_env pending_ready))"
proof -
  have p: "0 < timers pending_ready" "needsValidation pending_ready" "isReady pending_ready"
    by (simp_all add: pending_ready_def settle_initialize_def construct_def promise_catch_def
        promise_then_def on_initialized_def invalidate_def)
  have v: "validate sample_env (pending_ready\<lparr>timers := timers pending_ready - 1\<rparr>) = Normal"
    by (simp add: sample_env_def)
  have w: "validate throwing_env (pending_ready\<lparr>timers := timers pending_ready - 1\<rparr>) = Throw ''validation failed''"
    by (simp add: throwing_env_def)
  show ?thesis
    using p v w turn_clears_flag_on_return [OF p, of sample_env "''x''"]
      turn_clears_flag_on_return [OF p, of throwing_env "''validation failed''"]
    by simp
qed

section \<open>Lookup by position and file changes\<close>

text \<open>
  C8. \<open>documentAt\<close> is absent when the file has no entry; for a file with the entry
  \<open>ds\<close> it is absent exactly when no document of \<open>ds\<close> contains the position, and it
  is \<open>d\<close> exactly when \<open>d\<close> is the document at the first index of \<open>ds\<close> whose
  document contains the position.
\<close>

theorem documentAt_first_match:
  "(documentsAt s uri = None \<longrightarrow> documentAt env s uri position = None) \<and>
   (\<forall>ds. documentsAt s uri = Some ds \<longrightarrow>
      (documentAt env s uri position = None \<longleftrightarrow>
         (\<forall>i<length ds. \<not> containsPosition env (ds ! i) position)) \<and>
      (\<forall>d. documentAt env s uri position = Some d \<longleftrightarrow>
         (\<exists>i<length ds. ds ! i = d \<and> containsPosition env d position \<and>
            (\<forall>j<i. \<not> containsPosition env (ds ! j) position))))"
  by (auto simp: documentAt_def documentsAt_def find_None_iff find_Some_iff in_set_conv_nth)

theorem documentAt_first_match_witness:
  "documentsAt ((construct :: (nat \<times> nat) project)\<lparr>documentsByFile := [(''file:///b.ts'', [(0, 2), (2, 5), (7, 9)])]\<rparr>)
      ''file:///b.ts'' = Some [(0, 2), (2, 5), (7, 9)] \<and>
   documentAt sample_env ((construct :: (nat \<times> nat) project)\<lparr>documentsByFile := [(''file:///b.ts'', [(0, 2), (2, 5), (7, 9)])]\<rparr>)
      ''file:///b.ts'' \<lparr>line = 2, character = 0\<rparr> = Some (0, 2) \<and>
   documentAt sample_env ((construct :: (nat \<times> nat) project)\<lparr>documentsByFile := [(''file:///b.ts'', [(0, 2), (2, 5), (7, 9)])]\<rparr>)
      ''file:///b.ts'' \<lparr>line = 6, character = 0\<rparr> = None \<and>
   documentsAt ((construct :: (nat \<times> nat) project)\<lparr>documentsByFile := [(''file:///b.ts'', [(0, 2), (2, 5), (7, 9)])]\<rparr>)
      ''file:///a.graphql'' = None \<and>
   documentAt sample_env ((construct :: (nat \<times> nat) project)\<lparr>documentsByFile := [(''file:///b.ts'', [(0, 2), (2, 5), (7, 9)])]\<rparr>)
      ''file:///a.graphql'' \<lparr>line = 2, character = 0\<rparr> = None"
  using documentAt_first_match
    [of "(construct :: (nat \<times> nat) project)\<lparr>documentsByFile := [(''file:///b.ts'', [(0, 2), (2, 5), (7, 9)])]\<rparr>"
        "''file:///b.ts''" sample_env "\<lparr>line = 2, character = 0\<rparr>"]
  by (simp add: documentAt_def documentsAt_def construct_def sample_env_def)

lemma fileDidChange_completion:
  "fileDidChange env uri s = (Throw e, t) \<longleftrightarrow> fsPath env uri = Inl e \<and> t = s"
  by (auto simp: fileDidChange_def try_catch_def Let_def split: option.splits sum.splits)

lemma fileDidChange_returns_iff:
  "fst (fileDidChange env uri s) = Normal \<longleftrightarrow> (\<exists>filePath. fsPath env uri = Inr filePath)"
  by (auto simp: fileDidChange_def try_catch_def Let_def split: option.splits sum.splits)

text \<open>
  C6 as stated fails on a string that \<open>Uri.parse\<close> refuses: the call of
  \<open>Uri.parse\<close> is before the \<open>try\<close> block, so the exception leaves \<open>fileDidChange\<close>
  and reaches the caller, whatever the extension of the string is.
\<close>

theorem fileDidChange_malformed_uri_counterexample:
  "fileDidChange sample_env ''a b://x/y.txt'' construct =
     (Throw ''[UriError]: Scheme contains illegal characters.'', construct)"
  by (simp add: fileDidChange_def sample_env_def)

text \<open>
  C6, amended. For a URI that \<open>Uri.parse\<close> accepts: when the extension of its path
  is no key of the association table, \<open>fileDidChange\<close> returns normally with the
  state unchanged; when the extension is a key and reading the file throws \<open>e\<close>, it
  returns normally and the only change is the \<open>console.error(e)\<close> at the end of the
  trace. For a URI on which \<open>Uri.parse\<close> throws, the exception leaves
  \<open>fileDidChange\<close> with the state unchanged. The keys of the table are the five
  extensions \<open>.graphql\<close>, \<open>.js\<close>, \<open>.ts\<close>, \<open>.jsx\<close>, \<open>.tsx\<close>.
\<close>

theorem fileDidChange_unsupported_or_unreadable:
  "(\<forall>filePath.
      fsPath env uri = Inr filePath \<and> fileAssociations (extname env filePath) = None \<longrightarrow>
      fileDidChange env uri s = (Normal, s)) \<and>
   (\<forall>filePath languageId e.
      fsPath env uri = Inr filePath \<and>
      fileAssociations (extname env filePath) = Some languageId \<and>
      readFileSync env filePath = Inl e \<longrightarrow>
      fileDidChange env uri s = (Normal, s\<lparr>trace := trace s @ [ConsoleError e]\<rparr>)) \<and>
   (\<forall>e. fsPath env uri = Inl e \<longrightarrow> fileDidChange env uri s = (Throw e, s)) \<and>
   (fileAssociations extension = None \<longleftrightarrow>
      extension \<notin> {''.graphql'', ''.js'', ''.ts'', ''.jsx'', ''.tsx''})"
  by (auto simp: fileDidChange_def try_catch_def fileAssociations_def Let_def)

theorem fileDidChange_unsupported_or_unreadable_witness:
  "fsPath sample_env ''file:///notes.txt'' = Inr ''/notes.txt'' \<and>
   fileAssociations (extname sample_env ''/notes.txt'') = None \<and>
   fileDidChange sample_env ''file:///notes.txt'' construct = (Normal, construct) \<and>
   fsPath sample_env ''file:///gone.js'' = Inr ''/gone.js'' \<and>
   fileAssociations (extname sample_env ''/gone.js'') = Some ''javascript'' \<and>
   readFileSync sample_env ''/gone.js'' = Inl ''ENOENT'' \<and>
   fileDidChange sample_env ''file:///gone.js'' construct =
     (Normal, construct\<lparr>trace := [ConsoleError ''ENOENT'']\<rparr>) \<and>
   fsPath sample_env ''a b://x/y.txt'' = Inl ''[UriError]: Scheme contains illegal characters.'' \<and>
   fileDidChange sample_env ''a b://x/y.txt'' b_open =
     (Throw ''[UriError]: Scheme contains illegal characters.'', b_open)"
proof -
  have p1: "fsPath sample_env ''file:///notes.txt'' = Inr ''/notes.txt''"
    and p2: "fsPath sample_env ''file:///gone.js'' = Inr ''/gone.js''"
    and p3: "fsPath sample_env ''a b://x/y.txt'' = Inl ''[UriError]: Scheme contains illegal characters.''"
    by (simp_all add: sample_env_def)
  have a: "fileAssociations (extname sample_env ''/notes.txt'') = None"
    by (simp add: sample_env_def fileAssociations_def)
  have b: "fileAssociations (extname sample_env ''/gone.js'') = Some ''javascript''"
    by (simp add: sample_env_def fileAssociations_def)
  have c: "readFileSync sample_env ''/gone.js'' = Inl ''ENOENT''"
    by (simp add: sample_env_def)
  have t: "trace (construct :: (nat \<times> nat) project) = []"
    by (simp add: construct_def)
  have r1: "fileDidChange sample_env ''file:///notes.txt'' construct = (Normal, construct)"
    by (rule fileDidChange_unsupported_or_unreadable
          [of sample_env "''file:///notes.txt''" construct,
           THEN conjunct1, rule_format, OF conjI [OF p1 a]])
  have r2: "fileDidChange sample_env ''file:///gone.js'' construct =
     (Normal, construct\<lparr>trace := trace (construct :: (nat \<times> nat) project) @ [ConsoleError ''ENOENT'']\<rparr>)"
    by (rule fileDidChange_unsupported_or_unreadable
          [of sample_env "''file:///gone.js''" construct,
           THEN conjunct2, THEN conjunct1, rule_format, OF conjI [OF p2 conjI [OF b c]]])
  have r3: "fileDidChange sample_env ''a b://x/y.txt'' b_open =
     (Throw ''[UriError]: Scheme contains illegal characters.'', b_open)"
    by (rule fileDidChange_unsupported_or_unreadable
          [of sample_env "''a b://x/y.txt''" b_open,
           THEN conjunct2, THEN conjunct2, THEN conjunct1, rule_format, OF p3])
  show ?thesis
    using p1 p2 p3 a b c r1 r2 [unfolded t] r3 by simp
qed

section \<open>The document index\<close>

lemma set_update_subset: "set (AList.update k v al) \<subseteq> insert (k, v) (set al)"
  by (induction al) auto

lemma set_delete_subset: "set (AList.delete k al) \<subseteq> set al"
  by (auto simp: AList.delete_eq)

lemma nonempty_index_iff: "nonempty_index s \<longleftrightarrow> (\<forall>(uri, ds) \<in> set (documentsByFile s). ds \<noteq> [])"
  by (simp add: nonempty_index_def list_all_iff)

lemma nonempty_invalidate: "nonempty_index (invalidate s) = nonempty_index s"
  by (simp add: nonempty_index_def invalidate_def)

lemma nonempty_remove: "nonempty_index s \<Longrightarrow> nonempty_index (removeGraphQLDocumentsFor uri s)"
  using set_delete_subset [of uri "documentsByFile s"]
  by (auto simp: removeGraphQLDocumentsFor_def nonempty_invalidate)
     (auto simp: nonempty_index_iff publish_cleared_def split: option.splits)

lemma nonempty_documentDidChange:
  "nonempty_index s \<Longrightarrow> extractGraphQLDocuments env document \<noteq> Some [] \<Longrightarrow>
     nonempty_index (documentDidChange env document s)"
proof (cases "extractGraphQLDocuments env document")
  case None
  assume "nonempty_index s"
  with None show ?thesis by (simp add: documentDidChange_def nonempty_remove)
next
  case (Some ds)
  assume "nonempty_index s" "extractGraphQLDocuments env document \<noteq> Some []"
  with Some set_update_subset [of "td_uri document" ds "documentsByFile s"] show ?thesis
    by (auto simp: documentDidChange_def nonempty_invalidate)
       (auto simp: nonempty_index_iff)
qed

lemma nonempty_fileDidChange:
  "nonempty_index s \<Longrightarrow> \<forall>d. extractGraphQLDocuments env d \<noteq> Some [] \<Longrightarrow>
     nonempty_index (snd (fileDidChange env uri s))"
  by (auto simp: fileDidChange_def try_catch_def Let_def nonempty_documentDidChange
      split: option.splits sum.splits)
     (simp add: nonempty_index_def)

lemma nonempty_scan_loop:
  "nonempty_index s \<Longrightarrow> \<forall>d. extractGraphQLDocuments env d \<noteq> Some [] \<Longrightarrow>
     nonempty_index (fst (scan_loop env files (s, called)))"
  by (induction files arbitrary: s called) (auto simp: Let_def nonempty_fileDidChange)

lemma nonempty_timer_turn: "nonempty_index (snd (timer_turn env s)) = nonempty_index s"
  by (simp add: timer_turn_def validateIfNeeded_def nonempty_index_def Let_def split: completion.splits)

lemma nonempty_settle: "nonempty_index (settle_initialize env inits s) = nonempty_index s"
  by (cases "promise_all inits")
     (simp_all add: settle_initialize_def promise_then_def promise_catch_def on_initialized_def
       on_init_error_def nonempty_index_def invalidate_def split: completion.splits)

lemma nonempty_step:
  "nonempty_index s \<Longrightarrow> \<forall>d. extractGraphQLDocuments env d \<noteq> Some [] \<Longrightarrow>
     nonempty_index (step env a s)"
  by (cases a)
     (simp_all add: nonempty_settle nonempty_timer_turn nonempty_invalidate nonempty_fileDidChange
       nonempty_remove fileWasDeleted_def nonempty_documentDidChange scanAllIncludedFiles_def
       nonempty_scan_loop,
      simp_all add: nonempty_index_def onDiagnostics_def clearAllDiagnostics_def split: option.splits)

lemma nonempty_run:
  "nonempty_index s \<Longrightarrow> \<forall>(e, a) \<in> set ops. \<forall>d. extractGraphQLDocuments e d \<noteq> Some [] \<Longrightarrow>
     nonempty_index (run ops s)"
  by (induction ops arbitrary: s) (auto simp: nonempty_step)

text \<open>
  C2 as stated fails when the extractor returns the empty array: \<open>if (documents)\<close>
  holds for it, and the file is stored with an empty sequence.
\<close>

theorem documentDidChange_stores_empty_counterexample:
  "documentsAt (documentDidChange empty_array_env \<lparr>td_uri = ''file:///a.graphql'', td_languageId = ''graphql'', td_version = 1, td_text = ''''\<rparr> construct)
     ''file:///a.graphql'' = Some []"
  by (simp add: documentsAt_def documentDidChange_def empty_array_env_def sample_env_def
      construct_def invalidate_def)

text \<open>
  C2, amended. After \<open>documentDidChange\<close> the file has no entry when the extractor
  returned \<open>null\<close>, and has the extracted sequence as its entry when that sequence is
  not empty. When the extractor does not return the empty array, \<open>documentDidChange\<close>
  keeps every stored sequence non-empty, and so does every history of operations
  from the constructed project whose extractors never return the empty array.
\<close>

theorem documentDidChange_index:
  "(extractGraphQLDocuments (env :: 'a env) document = None \<longrightarrow>
      documentsAt (documentDidChange env document s) (td_uri document) = None) \<and>
   (\<forall>ds. extractGraphQLDocuments env document = Some ds \<and> ds \<noteq> [] \<longrightarrow>
      documentsAt (documentDidChange env document s) (td_uri document) = Some ds) \<and>
   (nonempty_index s \<and> extractGraphQLDocuments env document \<noteq> Some [] \<longrightarrow>
      nonempty_index (documentDidChange env document s)) \<and>
   ((\<forall>(e, a) \<in> set ops. \<forall>d. extractGraphQLDocuments e d \<noteq> Some []) \<longrightarrow>
      nonempty_index (run ops (construct :: 'a project)))"
proof -
  have none: "documentsAt (documentDidChange env document s) (td_uri document) = None"
    if "extractGraphQLDocuments env document = None"
    using that has_documents_removed [of "td_uri document" s]
    by (simp add: documentDidChange_def documentsAt_def has_documents_def)
  have some: "documentsAt (documentDidChange env document s) (td_uri document) = Some ds"
    if "extractGraphQLDocuments env document = Some ds" for ds
    using that
    by (simp add: documentDidChange_def documentsAt_def invalidate_def AList.update_conv')
  have start: "nonempty_index (construct :: 'a project)"
    by (simp add: nonempty_index_def construct_def)
  show ?thesis
    using none some nonempty_documentDidChange [of s env document] nonempty_run [OF start, of ops]
    by blast
qed

theorem documentDidChange_index_witness:
  "extractGraphQLDocuments sample_env a_plain = None \<and>
   documentsAt (documentDidChange sample_env a_plain (documentDidChange sample_env a_graphql construct))
     (td_uri a_plain) = None \<and>
   extractGraphQLDocuments sample_env a_graphql = Some [(0, 0)] \<and>
   documentsAt (documentDidChange sample_env a_graphql construct) (td_uri a_graphql) = Some [(0, 0)] \<and>
   nonempty_index (construct :: (nat \<times> nat) project) \<and>
   nonempty_index (documentDidChange sample_env a_graphql construct) \<and>
   nonempty_index
     (run [(sample_env, DocumentDidChange a_graphql), (sample_env, FileDidChange ''file:///b.ts'')] construct)"
proof -
  have n: "extractGraphQLDocuments sample_env a_plain = None"
    by (simp add: sample_env_def a_plain_def)
  have g: "extractGraphQLDocuments sample_env a_graphql = Some [(0, 0)]"
    by (simp add: sample_env_def a_graphql_def)
  have c: "nonempty_index (construct :: (nat \<times> nat) project)"
    by (simp add: nonempty_index_def construct_def)
  have h: "\<forall>(e, a) \<in> set [(sample_env, DocumentDidChange a_graphql), (sample_env, FileDidChange ''file:///b.ts'')].
             \<forall>d. extractGraphQLDocuments e d \<noteq> Some []"
    by (simp add: sample_env_def)
  note t1 = documentDidChange_index [of sample_env a_plain "documentDidChange sample_env a_graphql construct"
        "[(sample_env, DocumentDidChange a_graphql), (sample_env, FileDidChange ''file:///b.ts'')]"]
  note t2 = documentDidChange_index [of sample_env a_graphql construct "[]"]
  have r1: "documentsAt (documentDidChange sample_env a_plain (documentDidChange sample_env a_graphql construct))
     (td_uri a_plain) = None"
    using t1 n by blast
  have r2: "documentsAt (documentDidChange sample_env a_graphql construct) (td_uri a_graphql) = Some [(0, 0)]"
    using t2 g by blast
  have r3: "nonempty_index (documentDidChange sample_env a_graphql construct)"
    using t2 g c by simp
  have r4: "nonempty_index
     (run [(sample_env, DocumentDidChange a_graphql), (sample_env, FileDidChange ''file:///b.ts'')] construct)"
    using t1 h by blast
  show ?thesis
    using n g c r1 r2 r3 r4 by blast
qed

section \<open>The scan of the included files\<close>

lemma scan_loop_called:
  "scan_loop env files (s, called) =
     (fst (scan_loop env files (s, [])), called @ snd (scan_loop env files (s, [])))"
proof (induction files arbitrary: s called)
  case Nil
  show ?case by simp
next
  case (Cons f files)
  show ?case
  proof (cases "has_documents s (fileUri env f)")
    case True
    then show ?thesis using Cons [of s called] by (simp add: Let_def)
  next
    case False
    then show ?thesis
      using Cons [of "snd (fileDidChange env (fileUri env f) s)" "called @ [fileUri env f]"]
        Cons [of "snd (fileDidChange env (fileUri env f) s)" "[fileUri env f]"]
      by (simp add: Let_def)
  qed
qed

lemma scan_loop_append:
  "scan_loop env (files @ later) (s, called) = scan_loop env later (scan_loop env files (s, called))"
  by (induction files arbitrary: s called) (auto simp: Let_def)

lemma scan_loop_snoc:
  "scan_loop env (files @ [f]) (s, []) =
     (let s' = fst (scan_loop env files (s, []));
          uri = fileUri env f
      in if has_documents s' uri then (s', snd (scan_loop env files (s, [])))
         else (snd (fileDidChange env uri s'), snd (scan_loop env files (s, [])) @ [uri]))"
proof -
  obtain s' called where r: "scan_loop env files (s, []) = (s', called)"
    by (cases "scan_loop env files (s, [])")
  show ?thesis
    by (simp add: scan_loop_append r Let_def)
qed

lemma scan_loop_calls:
  "snd (scan_loop env files (s, [])) = concat (map (scan_call_at env files s) [0..<length files])"
proof (induction files rule: rev_induct)
  case Nil
  show ?case by simp
next
  case (snoc f files)
  have old: "map (scan_call_at env (files @ [f]) s) [0..<length files] =
             map (scan_call_at env files s) [0..<length files]"
    by (rule map_cong) (auto simp: scan_call_at_def nth_append)
  have new: "scan_call_at env (files @ [f]) s (length files) =
             (if has_documents (fst (scan_loop env files (s, []))) (fileUri env f)
              then [] else [fileUri env f])"
    by (simp add: scan_call_at_def)
  show ?case
    using snoc by (simp add: scan_loop_snoc Let_def old new)
qed

lemma scan_loop_reach:
  assumes "i < length files"
  shows "fst (scan_loop env (take (Suc i) files) (s, [])) =
           (if has_documents (fst (scan_loop env (take i files) (s, []))) (fileUri env (files ! i))
            then fst (scan_loop env (take i files) (s, []))
            else snd (fileDidChange env (fileUri env (files ! i)) (fst (scan_loop env (take i files) (s, [])))))"
  using assms by (simp add: take_Suc_conv_app_nth scan_loop_snoc Let_def)

lemma scan_loop_called_subset:
  "set (snd (scan_loop env files (s, called))) \<subseteq> set called \<union> fileUri env ` set files"
proof (induction files arbitrary: s called)
  case Nil
  show ?case by simp
next
  case (Cons f files)
  show ?case
    using Cons [of s called]
      Cons [of "snd (fileDidChange env (fileUri env f) s)" "called @ [fileUri env f]"]
    by (auto simp: Let_def)
qed

lemma scan_calls_return:
  assumes "\<forall>p \<in> set (allFiles env). \<exists>q. fsPath env (fileUri env p) = Inr q"
  shows "\<forall>uri \<in> set (scan_calls env s). \<forall>t. fst (fileDidChange env uri t) = Normal"
proof
  fix uri
  assume "uri \<in> set (scan_calls env s)"
  then have "uri \<in> fileUri env ` set (allFiles env)"
    using scan_loop_called_subset [of env "allFiles env" s "[]"] by (auto simp: scan_calls_def)
  then show "\<forall>t. fst (fileDidChange env uri t) = Normal"
    using assms by (auto simp: fileDidChange_returns_iff)
qed

text \<open>
  C9. The URIs on which \<open>scanAllIncludedFiles\<close> calls \<open>fileDidChange\<close> are, in order,
  those of the enumerated files whose URI has no entry in the index when the loop
  reaches them. A file whose URI has an entry when it is reached leaves the project
  as it is; for any other file the project becomes the result of \<open>fileDidChange\<close>.
\<close>

theorem scan_skips_indexed_files:
  "scan_calls env s =
     concat (map (\<lambda>i. if has_documents (scan_reached env s i) (fileUri env (allFiles env ! i))
                      then [] else [fileUri env (allFiles env ! i)])
               [0..<length (allFiles env)]) \<and>
   (\<forall>i<length (allFiles env).
      scan_reached env s (Suc i) =
        (if has_documents (scan_reached env s i) (fileUri env (allFiles env ! i))
         then scan_reached env s i
         else snd (fileDidChange env (fileUri env (allFiles env ! i)) (scan_reached env s i)))) \<and>
   scan_reached env s 0 = s \<and>
   scanAllIncludedFiles env s = scan_reached env s (length (allFiles env))"
proof -
  have calls: "scan_calls env s =
     concat (map (\<lambda>i. if has_documents (scan_reached env s i) (fileUri env (allFiles env ! i))
                      then [] else [fileUri env (allFiles env ! i)])
               [0..<length (allFiles env)])"
    using scan_loop_calls [of env "allFiles env" s]
    by (simp add: scan_calls_def scan_reached_def scan_call_at_def [abs_def])
  have reach: "scan_reached env s (Suc i) =
        (if has_documents (scan_reached env s i) (fileUri env (allFiles env ! i))
         then scan_reached env s i
         else snd (fileDidChange env (fileUri env (allFiles env ! i)) (scan_reached env s i)))"
    if "i < length (allFiles env)" for i
    using scan_loop_reach [OF that, of env s] by (simp add: scan_reached_def)
  show ?thesis
    using calls reach by (simp add: scan_reached_def scanAllIncludedFiles_def)
qed

theorem scan_skips_indexed_files_witness:
  "scan_calls sample_env b_open = [''file:///a.graphql'', ''file:///notes.txt'', ''file:///gone.js''] \<and>
   (1::nat) < length (allFiles sample_env) \<and>
   fileUri sample_env (allFiles sample_env ! 1) = ''file:///b.ts'' \<and>
   has_documents (scan_reached sample_env b_open 1) ''file:///b.ts'' \<and>
   scan_reached sample_env b_open (Suc 1) = scan_reached sample_env b_open 1 \<and>
   \<not> has_documents (scan_reached sample_env b_open 0) (fileUri sample_env (allFiles sample_env ! 0)) \<and>
   scan_reached sample_env b_open (Suc 0) = snd (fileDidChange sample_env ''file:///a.graphql'' b_open)"
proof -
  note t = scan_skips_indexed_files [of sample_env b_open]
  have files: "allFiles sample_env = [''/a.graphql'', ''/b.ts'', ''/notes.txt'', ''/gone.js'']"
    and uri: "fileUri sample_env = (\<lambda>p. ''file://'' @ p)"
    by (simp_all add: sample_env_def)
  have r0: "scan_reached sample_env b_open 0 = b_open"
    using t by blast
  have h0: "\<not> has_documents b_open ''file:///a.graphql''"
    by (simp add: has_documents_def b_open_def)
  have r1: "scan_reached sample_env b_open (Suc 0) = snd (fileDidChange sample_env ''file:///a.graphql'' b_open)"
    using t r0 h0 by (simp add: files uri)
  have h1': "has_documents (snd (fileDidChange sample_env ''file:///a.graphql'' b_open)) ''file:///b.ts''"
    by (simp add: has_documents_def b_open_def fileDidChange_def sample_env_def
        fileAssociations_def try_catch_def documentDidChange_def TextDocument_create_def
        invalidate_def construct_def)
  have h1: "has_documents (scan_reached sample_env b_open 1) ''file:///b.ts''"
    using h1' r1 by simp
  have r2: "scan_reached sample_env b_open (Suc 1) = scan_reached sample_env b_open 1"
    using t h1 by (simp add: files uri)
  have c: "scan_calls sample_env b_open = [''file:///a.graphql'', ''file:///notes.txt'', ''file:///gone.js'']"
    by (simp add: scan_calls_def has_documents_def b_open_def fileDidChange_def sample_env_def
        fileAssociations_def try_catch_def documentDidChange_def TextDocument_create_def
        invalidate_def construct_def removeGraphQLDocumentsFor_def Let_def)
  show ?thesis
    using c r0 h0 r1 h1 r2 by (simp add: files uri)
qed

section \<open>Readiness\<close>

subsection \<open>What each method does to readiness and to the promise\<close>

lemma invalidate_ready [simp]:
  "isReady (invalidate s) = isReady s" "readyPromise (invalidate s) = readyPromise s"
  by (simp_all add: invalidate_def)

lemma publish_cleared_ready [simp]:
  "isReady (publish_cleared uri s) = isReady s" "readyPromise (publish_cleared uri s) = readyPromise s"
  by (simp_all add: publish_cleared_def split: option.splits)

lemma remove_ready [simp]:
  "isReady (removeGraphQLDocumentsFor uri s) = isReady s"
  "readyPromise (removeGraphQLDocumentsFor uri s) = readyPromise s"
  by (simp_all add: removeGraphQLDocumentsFor_def)

lemma documentDidChange_ready [simp]:
  "isReady (documentDidChange env document s) = isReady s"
  "readyPromise (documentDidChange env document s) = readyPromise s"
  by (simp_all add: documentDidChange_def split: option.splits)

lemma fileDidChange_ready [simp]:
  "isReady (snd (fileDidChange env uri s)) = isReady s"
  "readyPromise (snd (fileDidChange env uri s)) = readyPromise s"
  by (simp_all add: fileDidChange_def try_catch_def Let_def split: option.splits sum.splits)

lemma scan_loop_ready [simp]:
  "isReady (fst (scan_loop env files (s, called))) = isReady s"
  "readyPromise (fst (scan_loop env files (s, called))) = readyPromise s"
  by (induction files arbitrary: s called) (simp_all add: Let_def)

lemma timer_turn_ready [simp]:
  "isReady (snd (timer_turn env s)) = isReady s"
  "readyPromise (snd (timer_turn env s)) = readyPromise s"
  by (simp_all add: timer_turn_def validateIfNeeded_def Let_def split: completion.splits)

lemma promise_all_Fulfilled: "promise_all inits = Fulfilled \<longleftrightarrow> (\<forall>p \<in> set inits. p = Fulfilled)"
proof (induction inits)
  case Nil
  show ?case by simp
next
  case (Cons p inits)
  then show ?case by (cases p) (auto split: promise.splits)
qed

lemma promise_all_Rejected: "(\<exists>e. promise_all inits = Rejected e) \<longleftrightarrow> (\<exists>e. Rejected e \<in> set inits)"
proof (induction inits)
  case Nil
  show ?case by simp
next
  case (Cons p inits)
  then show ?case by (cases p) (auto split: promise.splits)
qed

lemma promise_all_Rejected_mem: "promise_all inits = Rejected e \<Longrightarrow> Rejected e \<in> set inits"
proof (induction inits)
  case Nil
  then show ?case by simp
next
  case (Cons p inits)
  then show ?case by (cases p) (auto split: promise.splits)
qed

lemma settle_settled: "readyPromise s \<noteq> Pending \<Longrightarrow> settle_initialize env inits s = s"
  by (simp add: settle_initialize_def)

lemma settle_pending:
  "readyPromise s = Pending \<Longrightarrow> promise_all inits = Pending \<Longrightarrow> settle_initialize env inits s = s"
  by (simp add: settle_initialize_def promise_then_def promise_catch_def)

lemma settle_fulfilled:
  "readyPromise s = Pending \<Longrightarrow> promise_all inits = Fulfilled \<Longrightarrow>
     settle_initialize env inits s = (invalidate (s\<lparr>isReady := True\<rparr>))\<lparr>readyPromise := Fulfilled\<rparr>"
  by (simp add: settle_initialize_def promise_then_def promise_catch_def on_initialized_def)

lemma settle_rejected:
  "readyPromise s = Pending \<Longrightarrow> promise_all inits = Rejected e \<Longrightarrow>
     settle_initialize env inits s =
       s\<lparr>trace := trace s @ [ConsoleError e, ShowError (init_error_message env e)],
         readyPromise :=
           (case showError env (init_error_message env e) of
              Normal \<Rightarrow> Fulfilled
            | Throw x \<Rightarrow> Rejected x)\<rparr>"
  by (simp add: settle_initialize_def promise_then_def promise_catch_def on_init_error_def
      split: completion.splits)

lemma settle_isReady:
  "isReady (settle_initialize env inits s) \<longleftrightarrow>
     isReady s \<or> (readyPromise s = Pending \<and> promise_all inits = Fulfilled)"
  by (cases "readyPromise s = Pending"; cases "promise_all inits")
     (simp_all add: settle_settled settle_pending settle_fulfilled settle_rejected)

lemma settle_readyPromise:
  "readyPromise (settle_initialize env inits s) =
     (if readyPromise s = Pending
      then (case promise_all inits of
              Pending \<Rightarrow> Pending
            | Fulfilled \<Rightarrow> Fulfilled
            | Rejected e \<Rightarrow>
                (case showError env (init_error_message env e) of
                   Normal \<Rightarrow> Fulfilled
                 | Throw x \<Rightarrow> Rejected x))
      else readyPromise s)"
  by (cases "readyPromise s = Pending"; cases "promise_all inits")
     (simp_all add: settle_settled settle_pending settle_fulfilled settle_rejected)

lemma settle_not_pending:
  "readyPromise s \<noteq> Pending \<or> promise_all inits \<noteq> Pending \<Longrightarrow>
     readyPromise (settle_initialize env inits s) \<noteq> Pending"
  by (cases "promise_all inits")
     (auto simp: settle_readyPromise split: completion.splits)

lemma settle_kept: "readyPromise s \<noteq> Pending \<Longrightarrow> readyPromise (settle_initialize env inits s) = readyPromise s"
  by (simp add: settle_settled)

lemma step_isReady:
  "isReady (step env a s) \<longleftrightarrow>
     isReady s \<or>
     (\<exists>inits. a = SettleInitialize inits \<and> readyPromise s = Pending \<and> promise_all inits = Fulfilled)"
  by (cases a)
     (simp_all add: settle_isReady onDiagnostics_def fileWasDeleted_def scanAllIncludedFiles_def
       clearAllDiagnostics_def split: option.splits)


lemma step_kept: "readyPromise s \<noteq> Pending \<Longrightarrow> readyPromise (step env a s) = readyPromise s"
  by (cases a)
     (simp_all add: settle_kept onDiagnostics_def fileWasDeleted_def scanAllIncludedFiles_def
       clearAllDiagnostics_def split: option.splits)

lemma step_fulfilled_when_ready:
  "\<not> isReady s \<Longrightarrow> isReady (step env a s) \<Longrightarrow> readyPromise (step env a s) = Fulfilled"
  by (cases a)
     (auto simp: settle_isReady settle_readyPromise onDiagnostics_def fileWasDeleted_def
       scanAllIncludedFiles_def clearAllDiagnostics_def split: option.splits)

lemma step_isReady_mono: "isReady s \<Longrightarrow> isReady (step env a s)"
  by (simp add: step_isReady)

lemma step_never_ready:
  "\<not> isReady s \<Longrightarrow> readyPromise s \<noteq> Pending \<Longrightarrow>
     \<not> isReady (step env a s) \<and> readyPromise (step env a s) = readyPromise s"
  by (simp add: step_isReady step_kept)


lemma run_isReady_mono: "isReady s \<Longrightarrow> isReady (run ops s)"
proof (induction ops arbitrary: s)
  case Nil
  then show ?case by simp
next
  case (Cons x ops)
  obtain env a where x: "x = (env, a)" by (cases x)
  show ?case
    using Cons.IH [of "step env a s"] step_isReady_mono [OF Cons.prems, of env a]
    by (simp add: x)
qed

lemma run_never_ready:
  "\<not> isReady s \<Longrightarrow> readyPromise s \<noteq> Pending \<Longrightarrow>
     \<not> isReady (run ops s) \<and> readyPromise (run ops s) = readyPromise s"
proof (induction ops arbitrary: s)
  case Nil
  then show ?case by simp
next
  case (Cons x ops)
  obtain env a where x: "x = (env, a)" by (cases x)
  have st: "\<not> isReady (step env a s)" "readyPromise (step env a s) = readyPromise s"
    using step_never_ready [OF Cons.prems, of env a] by simp_all
  show ?case
    using Cons.IH [of "step env a s"] st Cons.prems(2) by (simp add: x)
qed


text \<open>
  C5. \<open>isReady\<close> is false after construction. No operation and no history resets it.
  It goes from false to true only in the step in which the pending initialization
  settles with every subtask fulfilled, and then \<open>readyPromise\<close> is settled, after which
  a further settlement does nothing. When a subtask is rejected while the project is
  pending, the error is logged and shown through the loading handler, and
  \<open>isReady\<close> is false after every later history.
\<close>

theorem readiness_monotonic:
  "\<not> isReady (construct :: 'a project) \<and>
   (isReady s \<longrightarrow> isReady (step (env :: 'a env) a s) \<and> isReady (run ops s)) \<and>
   (\<not> isReady s \<and> isReady (step env a s) \<longrightarrow>
      (\<exists>inits. a = SettleInitialize inits \<and> (\<forall>p \<in> set inits. p = Fulfilled)) \<and>
      readyPromise s = Pending \<and> readyPromise (step env a s) = Fulfilled) \<and>
   (readyPromise s \<noteq> Pending \<longrightarrow> settle_initialize env inits s = s) \<and>
   (readyPromise s = Pending \<and> \<not> isReady s \<and> (\<exists>e. Rejected e \<in> set inits) \<longrightarrow>
      (\<exists>e. Rejected e \<in> set inits \<and>
           trace (settle_initialize env inits s) =
             trace s @ [ConsoleError e, ShowError (init_error_message env e)]) \<and>
      (\<forall>later. \<not> isReady (run later (settle_initialize env inits s))))"
proof -
  have start: "\<not> isReady (construct :: 'a project)"
    by (simp add: construct_def)
  have up: "(\<exists>inits. a = SettleInitialize inits \<and> (\<forall>p \<in> set inits. p = Fulfilled)) \<and>
      readyPromise s = Pending \<and> readyPromise (step env a s) = Fulfilled"
    if "\<not> isReady s" "isReady (step env a s)"
  proof -
    from that obtain inits where i: "a = SettleInitialize inits" "readyPromise s = Pending"
        "promise_all inits = Fulfilled"
      by (auto simp: step_isReady)
    have "readyPromise (step env a s) = Fulfilled"
      using that by (rule step_fulfilled_when_ready)
    moreover have "\<forall>p \<in> set inits. p = Fulfilled"
      using i by (simp add: promise_all_Fulfilled)
    ultimately show ?thesis
      using i by blast
  qed
  have failed: "(\<exists>e. Rejected e \<in> set inits \<and>
           trace (settle_initialize env inits s) =
             trace s @ [ConsoleError e, ShowError (init_error_message env e)]) \<and>
      (\<forall>later. \<not> isReady (run later (settle_initialize env inits s)))"
    if p: "readyPromise s = Pending" and n: "\<not> isReady s" and r: "\<exists>e. Rejected e \<in> set inits"
  proof -
    from r obtain e where e: "promise_all inits = Rejected e"
      using promise_all_Rejected [of inits] by blast
    have eq: "settle_initialize env inits s =
       s\<lparr>trace := trace s @ [ConsoleError e, ShowError (init_error_message env e)],
         readyPromise :=
           (case showError env (init_error_message env e) of
              Normal \<Rightarrow> Fulfilled
            | Throw x \<Rightarrow> Rejected x)\<rparr>"
      by (rule settle_rejected [OF p e])
    have now: "\<not> isReady (settle_initialize env inits s)"
      using n by (simp add: eq)
    have settled: "readyPromise (settle_initialize env inits s) \<noteq> Pending"
      using e by (intro settle_not_pending) simp
    have "\<not> isReady (run later (settle_initialize env inits s))" for later
      using run_never_ready [OF now settled, of later] by simp
    moreover have "Rejected e \<in> set inits"
      by (rule promise_all_Rejected_mem [OF e])
    moreover have "trace (settle_initialize env inits s) =
             trace s @ [ConsoleError e, ShowError (init_error_message env e)]"
      by (simp add: eq)
    ultimately show ?thesis by blast
  qed
  show ?thesis
    using start up failed step_isReady_mono [of s env a] run_isReady_mono [of s ops]
      settle_settled [of s env inits]
    by blast
qed

theorem readiness_monotonic_witness:
  "isReady pending_ready \<and>
   isReady (step throwing_env TimerTurn pending_ready) \<and>
   isReady (run [(throwing_env, TimerTurn), (sample_env, FileWasDeleted ''file:///a.graphql'')] pending_ready) \<and>
   \<not> isReady (construct :: (nat \<times> nat) project) \<and>
   isReady (step sample_env (SettleInitialize [Fulfilled, Fulfilled]) construct) \<and>
   readyPromise (step sample_env (SettleInitialize [Fulfilled, Fulfilled]) (construct :: (nat \<times> nat) project)) = Fulfilled \<and>
   readyPromise pending_ready \<noteq> Pending \<and>
   settle_initialize throwing_env [Rejected ''late''] pending_ready = pending_ready \<and>
   readyPromise (construct :: (nat \<times> nat) project) = Pending \<and>
   Rejected ''schema unreachable'' \<in> set [Fulfilled, Rejected ''schema unreachable''] \<and>
   trace init_failed =
     [ConsoleError ''schema unreachable'',
      ShowError (init_error_message sample_env ''schema unreachable'')] \<and>
   \<not> isReady (run [(sample_env, FileDidChange ''file:///a.graphql''),
                      (sample_env, SettleInitialize [Fulfilled]), (sample_env, TimerTurn)] init_failed)"
proof -
  have p: "isReady pending_ready" "readyPromise pending_ready \<noteq> Pending"
    by (simp_all add: pending_ready_def settle_initialize_def construct_def promise_catch_def
        promise_then_def on_initialized_def invalidate_def)
  have c: "\<not> isReady (construct :: (nat \<times> nat) project)"
      "readyPromise (construct :: (nat \<times> nat) project) = Pending"
    by (simp_all add: construct_def)
  have u: "isReady (step sample_env (SettleInitialize [Fulfilled, Fulfilled]) construct)"
    by (simp add: settle_initialize_def construct_def promise_catch_def
        promise_then_def on_initialized_def invalidate_def)
  have r: "\<exists>e. Rejected e \<in> set [Fulfilled, Rejected ''schema unreachable'']"
    by simp
  have se: "showError sample_env message = Normal" for message
    by (simp add: sample_env_def)
  have f: "trace init_failed =
     [ConsoleError ''schema unreachable'',
      ShowError (init_error_message sample_env ''schema unreachable'')]"
    by (simp add: init_failed_def settle_initialize_def construct_def promise_catch_def
        promise_then_def on_init_error_def se)
  note t1 = readiness_monotonic [of pending_ready throwing_env TimerTurn
      "[(throwing_env, TimerTurn), (sample_env, FileWasDeleted ''file:///a.graphql'')]"
      "[Rejected ''late'']"]
  note t2 = readiness_monotonic [of construct sample_env "SettleInitialize [Fulfilled, Fulfilled]" "[]"
      "[Fulfilled, Rejected ''schema unreachable'']"]
  have a1: "isReady (step throwing_env TimerTurn pending_ready)"
      "isReady (run [(throwing_env, TimerTurn), (sample_env, FileWasDeleted ''file:///a.graphql'')] pending_ready)"
      "settle_initialize throwing_env [Rejected ''late''] pending_ready = pending_ready"
    using t1 p by blast+
  have a2: "readyPromise (step sample_env (SettleInitialize [Fulfilled, Fulfilled]) (construct :: (nat \<times> nat) project)) = Fulfilled"
    using t2 c u by blast
  have a3: "\<not> isReady (run [(sample_env, FileDidChange ''file:///a.graphql''),
                      (sample_env, SettleInitialize [Fulfilled]), (sample_env, TimerTurn)] init_failed)"
    using t2 c r unfolding init_failed_def by blast
  have m: "Rejected ''schema unreachable'' \<in> set [Fulfilled, Rejected ''schema unreachable'']"
    by simp
  show ?thesis
    using p c u f a1 a2 a3 m by blast
qed




subsection \<open>The scheduler invariant\<close>

lemma invalidate_idem: "invalidate (invalidate s) = invalidate s"
  by (simp add: invalidate_def)

lemma burst_invalidate: "burst n (invalidate s) = invalidate s"
  by (induction n) (simp_all add: invalidate_idem)

lemma burst_positive: "0 < n \<Longrightarrow> burst n s = invalidate s"
  by (cases n) (simp_all add: burst_invalidate)

lemma turns_none: "timers s = 0 \<Longrightarrow> run_pending_turns env s = s"
  by (simp add: run_pending_turns.simps)

lemma turns_one:
  assumes "timers s = 1" "needsValidation s" "isReady s"
  shows "validations (run_pending_turns env s) = validations s + 1"
proof -
  have t: "timers (snd (timer_turn env s)) = 0"
    and v: "validations (snd (timer_turn env s)) = validations s + 1"
    using assms
    by (simp_all add: timer_turn_def validateIfNeeded_def validations_def Let_def
        split: completion.splits)
  have "run_pending_turns env s = run_pending_turns env (snd (timer_turn env s))"
    using assms by (subst run_pending_turns.simps) simp
  then show ?thesis
    using t v by (simp add: turns_none)
qed

lemma consistent_invalidate: "scheduler_consistent s \<Longrightarrow> scheduler_consistent (invalidate s)"
  by (auto simp: scheduler_consistent_def invalidate_def)

lemma consistent_remove:
  "scheduler_consistent s \<Longrightarrow> scheduler_consistent (removeGraphQLDocumentsFor uri s)"
  by (auto simp: scheduler_consistent_def removeGraphQLDocumentsFor_def invalidate_def
      publish_cleared_def split: option.splits)

lemma consistent_documentDidChange:
  "scheduler_consistent s \<Longrightarrow> scheduler_consistent (documentDidChange env document s)"
  by (auto simp: documentDidChange_def consistent_remove split: option.splits)
     (auto simp: scheduler_consistent_def invalidate_def)

lemma consistent_fileDidChange:
  "scheduler_consistent s \<Longrightarrow> scheduler_consistent (snd (fileDidChange env uri s))"
  by (auto simp: fileDidChange_def try_catch_def Let_def consistent_documentDidChange
      split: option.splits sum.splits)
     (simp add: scheduler_consistent_def)

lemma consistent_scan_loop:
  "scheduler_consistent s \<Longrightarrow> scheduler_consistent (fst (scan_loop env files (s, called)))"
  by (induction files arbitrary: s called) (simp_all add: Let_def consistent_fileDidChange)

lemma consistent_timer_turn:
  "scheduler_consistent s \<Longrightarrow> fst (timer_turn env s) = Normal \<Longrightarrow>
     scheduler_consistent (snd (timer_turn env s))"
  by (auto simp: scheduler_consistent_def timer_turn_def validateIfNeeded_def Let_def
      split: completion.splits if_splits)

lemma timer_turn_returns:
  "\<forall>t. validate env t = Normal \<Longrightarrow> fst (timer_turn env s) = Normal"
  by (simp add: timer_turn_def validateIfNeeded_def Let_def)

lemma consistent_settle:
  "scheduler_consistent s \<Longrightarrow> scheduler_consistent (settle_initialize env inits s)"
  by (cases "readyPromise s = Pending"; cases "promise_all inits")
     (auto simp: settle_settled settle_pending settle_fulfilled settle_rejected
       scheduler_consistent_def invalidate_def)

lemma consistent_step:
  "scheduler_consistent s \<Longrightarrow> \<forall>t. validate env t = Normal \<Longrightarrow>
     scheduler_consistent (step env a s)"
  by (cases a)
     (simp_all add: consistent_settle consistent_timer_turn timer_turn_returns consistent_invalidate
       consistent_fileDidChange consistent_remove fileWasDeleted_def consistent_documentDidChange
       scanAllIncludedFiles_def consistent_scan_loop,
      simp_all add: scheduler_consistent_def onDiagnostics_def clearAllDiagnostics_def
       split: option.splits)

lemma consistent_run:
  "scheduler_consistent s \<Longrightarrow> \<forall>(e, a) \<in> set ops. \<forall>t. validate e t = Normal \<Longrightarrow>
     scheduler_consistent (run ops s)"
proof (induction ops arbitrary: s)
  case Nil
  then show ?case by simp
next
  case (Cons x ops)
  obtain env a where x: "x = (env, a)" by (cases x)
  have "scheduler_consistent (step env a s)"
    using Cons.prems by (simp add: x consistent_step)
  then show ?case
    using Cons.IH [of "step env a s"] Cons.prems(2) by (simp add: x)
qed

section \<open>Coalescing of invalidations\<close>

text \<open>
  C1 as stated fails after a \<open>validate()\<close> that threw: the project is ready, the flag
  was left up with no callback queued, and a burst of three \<open>invalidate()\<close> calls
  followed by the event loop adds no call of \<open>validate()\<close>.
\<close>

theorem burst_after_throw_counterexample:
  "isReady stuck_ready \<and> validations stuck_ready = 1 \<and>
   validations (run_pending_turns sample_env (burst 3 stuck_ready)) = 1"
  by (simp add: stuck_ready_def settle_initialize_def construct_def promise_catch_def
      promise_then_def on_initialized_def invalidate_def timer_turn_def validateIfNeeded_def
      throwing_env_def sample_env_def validations_def eval_nat_numeral run_pending_turns.simps)

text \<open>
  C1, amended. In every state reached by a history whose \<open>validate()\<close> hooks do not
  throw, the flag is up exactly when one callback is queued. From a state of that
  kind a burst of \<open>n \<ge> 1\<close> calls of \<open>invalidate()\<close> followed by the event loop adds
  exactly one call of \<open>validate()\<close> when the project is ready, whether that call
  returns or throws. When the project is not ready the burst changes nothing and the
  event loop adds no call; once the initialization then settles with every subtask
  fulfilled, the event loop adds exactly one call.
\<close>

theorem burst_validates_once:
  "((\<forall>(e, a) \<in> set ops. \<forall>t. validate e t = Normal) \<longrightarrow>
      scheduler_consistent (run ops (construct :: 'a project))) \<and>
   (0 < n \<and> scheduler_consistent s \<and> isReady s \<longrightarrow>
      validations (run_pending_turns (env :: 'a env) (burst n s)) = validations s + 1) \<and>
   (0 < n \<and> scheduler_consistent s \<and> \<not> isReady s \<longrightarrow>
      burst n s = s \<and>
      validations (run_pending_turns env (burst n s)) = validations s \<and>
      (readyPromise s = Pending \<and> (\<forall>p \<in> set inits. p = Fulfilled) \<longrightarrow>
         validations (run_pending_turns env (settle_initialize env inits (burst n s))) =
           validations s + 1))"
proof -
  have reach: "scheduler_consistent (run ops (construct :: 'a project))"
    if "\<forall>(e, a) \<in> set ops. \<forall>t. validate e t = Normal"
    using that by (intro consistent_run) (simp_all add: scheduler_consistent_def construct_def)
  have ready: "validations (run_pending_turns env (burst n s)) = validations s + 1"
    if n: "0 < n" and c: "scheduler_consistent s" and r: "isReady s"
  proof -
    have "timers (invalidate s) = 1" "needsValidation (invalidate s)" "isReady (invalidate s)"
      using c r by (auto simp: scheduler_consistent_def invalidate_def)
    then have "validations (run_pending_turns env (invalidate s)) = validations (invalidate s) + 1"
      by (rule turns_one)
    then show ?thesis
      using n by (simp add: burst_positive validations_def invalidate_def)
  qed
  have early: "burst n s = s \<and>
      validations (run_pending_turns env (burst n s)) = validations s \<and>
      (readyPromise s = Pending \<and> (\<forall>p \<in> set inits. p = Fulfilled) \<longrightarrow>
         validations (run_pending_turns env (settle_initialize env inits (burst n s))) =
           validations s + 1)"
    if n: "0 < n" and c: "scheduler_consistent s" and r: "\<not> isReady s"
  proof -
    have b: "burst n s = s"
      using n r by (simp add: burst_positive invalidate_def)
    have idle: "\<not> needsValidation s" "timers s = 0"
      using c r by (auto simp: scheduler_consistent_def)
    have quiet: "validations (run_pending_turns env (burst n s)) = validations s"
      using idle by (simp add: b turns_none)
    have later: "validations (run_pending_turns env (settle_initialize env inits (burst n s))) =
           validations s + 1"
      if p: "readyPromise s = Pending" and f: "\<forall>p \<in> set inits. p = Fulfilled"
    proof -
      have all: "promise_all inits = Fulfilled"
        using f by (simp add: promise_all_Fulfilled)
      let ?t = "settle_initialize env inits s"
      have eq: "?t = (invalidate (s\<lparr>isReady := True\<rparr>))\<lparr>readyPromise := Fulfilled\<rparr>"
        by (rule settle_fulfilled [OF p all])
      have "timers ?t = 1" "needsValidation ?t" "isReady ?t"
        using idle by (simp_all add: eq invalidate_def)
      then have "validations (run_pending_turns env ?t) = validations ?t + 1"
        by (rule turns_one)
      moreover have "validations ?t = validations s"
        by (simp add: eq validations_def invalidate_def)
      ultimately show ?thesis
        by (simp add: b)
    qed
    show ?thesis
      using b quiet later by blast
  qed
  show ?thesis
    using reach ready early by blast
qed

theorem burst_validates_once_witness:
  "scheduler_consistent idle_ready \<and> isReady idle_ready \<and> validations idle_ready = 1 \<and>
   validations (run_pending_turns throwing_env (burst 3 idle_ready)) = 2 \<and>
   scheduler_consistent (construct :: (nat \<times> nat) project) \<and>
   \<not> isReady (construct :: (nat \<times> nat) project) \<and>
   burst 2 (construct :: (nat \<times> nat) project) = construct \<and>
   validations (run_pending_turns sample_env (burst 2 (construct :: (nat \<times> nat) project))) = 0 \<and>
   validations (run_pending_turns sample_env
                  (settle_initialize sample_env [Fulfilled, Fulfilled] (burst 2 construct))) = 1"
proof -
  note t1 = burst_validates_once
    [where ops = "[(sample_env, SettleInitialize [Fulfilled, Fulfilled]), (sample_env, TimerTurn)]"
       and n = 3 and s = idle_ready and env = throwing_env]
  note t2 = burst_validates_once
    [where ops = "[]" and n = 2 and s = "construct :: (nat \<times> nat) project" and env = sample_env
       and inits = "[Fulfilled, Fulfilled]"]
  have h: "\<forall>(e, a) \<in> set [(sample_env, SettleInitialize [Fulfilled, Fulfilled]), (sample_env, TimerTurn)].
             \<forall>t. validate e t = Normal"
    by (simp add: sample_env_def)
  have c1: "scheduler_consistent idle_ready"
    using t1 h unfolding idle_ready_def by blast
  have r1: "isReady idle_ready" and v1: "validations idle_ready = 1"
    by (simp_all add: idle_ready_def settle_initialize_def construct_def promise_catch_def
        promise_then_def on_initialized_def invalidate_def timer_turn_def validateIfNeeded_def
        sample_env_def validations_def)
  have n3: "(0::nat) < 3" and n2: "(0::nat) < 2"
    by simp_all
  have b1: "validations (run_pending_turns throwing_env (burst 3 idle_ready)) = validations idle_ready + 1"
    using t1 n3 c1 r1 by blast
  have c2: "scheduler_consistent (construct :: (nat \<times> nat) project)"
    using t2 by simp
  have r2: "\<not> isReady (construct :: (nat \<times> nat) project)"
      "readyPromise (construct :: (nat \<times> nat) project) = Pending"
      "validations (construct :: (nat \<times> nat) project) = 0"
    by (simp_all add: construct_def validations_def)
  have f: "\<forall>p \<in> set [Fulfilled, Fulfilled]. p = Fulfilled"
    by simp
  have b2: "burst 2 (construct :: (nat \<times> nat) project) = construct"
      "validations (run_pending_turns sample_env (burst 2 (construct :: (nat \<times> nat) project))) =
         validations (construct :: (nat \<times> nat) project)"
      "validations (run_pending_turns sample_env
                  (settle_initialize sample_env [Fulfilled, Fulfilled] (burst 2 construct))) =
         validations (construct :: (nat \<times> nat) project) + 1"
    using t2 n2 c2 r2 f by blast+
  show ?thesis
    using c1 r1 v1 b1 c2 r2 b2 by simp
qed

section \<open>Invalidation before readiness\<close>

lemma gate_invalidate: "flag_only_when_ready s \<Longrightarrow> flag_only_when_ready (invalidate s)"
  by (auto simp: flag_only_when_ready_def invalidate_def)

lemma gate_remove:
  "flag_only_when_ready s \<Longrightarrow> flag_only_when_ready (removeGraphQLDocumentsFor uri s)"
  by (auto simp: flag_only_when_ready_def removeGraphQLDocumentsFor_def invalidate_def
      publish_cleared_def split: option.splits)

lemma gate_documentDidChange:
  "flag_only_when_ready s \<Longrightarrow> flag_only_when_ready (documentDidChange env document s)"
  by (auto simp: documentDidChange_def gate_remove split: option.splits)
     (auto simp: flag_only_when_ready_def invalidate_def)

lemma gate_fileDidChange:
  "flag_only_when_ready s \<Longrightarrow> flag_only_when_ready (snd (fileDidChange env uri s))"
  by (auto simp: fileDidChange_def try_catch_def Let_def gate_documentDidChange
      split: option.splits sum.splits)
     (simp add: flag_only_when_ready_def)

lemma gate_scan_loop:
  "flag_only_when_ready s \<Longrightarrow> flag_only_when_ready (fst (scan_loop env files (s, called)))"
  by (induction files arbitrary: s called) (simp_all add: Let_def gate_fileDidChange)

lemma gate_timer_turn:
  "flag_only_when_ready s \<Longrightarrow> flag_only_when_ready (snd (timer_turn env s))"
  by (auto simp: flag_only_when_ready_def timer_turn_def validateIfNeeded_def Let_def
      split: completion.splits if_splits)

lemma gate_settle:
  "flag_only_when_ready s \<Longrightarrow> flag_only_when_ready (settle_initialize env inits s)"
  by (cases "readyPromise s = Pending"; cases "promise_all inits")
     (auto simp: settle_settled settle_pending settle_fulfilled settle_rejected
       flag_only_when_ready_def invalidate_def)

lemma gate_step: "flag_only_when_ready s \<Longrightarrow> flag_only_when_ready (step env a s)"
  by (cases a)
     (simp_all add: gate_settle gate_timer_turn gate_invalidate gate_fileDidChange gate_remove
       fileWasDeleted_def gate_documentDidChange scanAllIncludedFiles_def gate_scan_loop,
      simp_all add: flag_only_when_ready_def onDiagnostics_def clearAllDiagnostics_def
       split: option.splits)

lemma gate_run: "flag_only_when_ready s \<Longrightarrow> flag_only_when_ready (run ops s)"
proof (induction ops arbitrary: s)
  case Nil
  then show ?case by simp
next
  case (Cons x ops)
  obtain env a where x: "x = (env, a)" by (cases x)
  show ?case
    using Cons.IH [of "step env a s"] gate_step [OF Cons.prems, of env a] by (simp add: x)
qed

lemma gate_reachable: "flag_only_when_ready (run ops construct)"
  by (rule gate_run) (simp add: flag_only_when_ready_def construct_def)

text \<open>
  C3 as stated fails on the freshly constructed project: it is not ready, and after
  \<open>invalidate()\<close> the flag \<open>needsValidation\<close> is still false.
\<close>

theorem invalidate_not_ready_counterexample:
  "\<not> isReady (construct :: unit project) \<and>
   \<not> needsValidation (invalidate (construct :: unit project))"
  by (simp add: invalidate_def construct_def)

text \<open>
  C3, amended. A call of \<open>invalidate()\<close> while the project is not ready has no effect
  at all: the state is the one before, so the flag keeps its value and no callback is
  queued. In every state that a history of operations reaches from the constructed
  project and in which the project is not ready, the flag is down after the call and
  the number of queued callbacks is the one before.
\<close>

theorem invalidate_not_ready_noop:
  "(\<not> isReady s \<longrightarrow> invalidate s = s) \<and>
   (\<not> isReady (run ops (construct :: 'a project)) \<longrightarrow>
      \<not> needsValidation (invalidate (run ops (construct :: 'a project))) \<and>
      timers (invalidate (run ops (construct :: 'a project))) = timers (run ops (construct :: 'a project)))"
proof -
  have first: "invalidate s = s" if "\<not> isReady s"
    using that by (simp add: invalidate_def)
  have second: "\<not> needsValidation (invalidate (run ops (construct :: 'a project))) \<and>
      timers (invalidate (run ops (construct :: 'a project))) = timers (run ops (construct :: 'a project))"
    if n: "\<not> isReady (run ops (construct :: 'a project))"
  proof -
    have "\<not> needsValidation (run ops (construct :: 'a project))"
      using n gate_reachable [of ops] by (auto simp: flag_only_when_ready_def)
    moreover have "invalidate (run ops (construct :: 'a project)) = run ops construct"
      using n by (simp add: invalidate_def)
    ultimately show ?thesis by simp
  qed
  show ?thesis
    using first second by blast
qed

theorem invalidate_not_ready_noop_witness:
  "\<not> isReady (construct :: (nat \<times> nat) project) \<and>
   invalidate (construct :: (nat \<times> nat) project) = construct \<and>
   \<not> isReady (run [(sample_env, DocumentDidChange a_graphql)] construct) \<and>
   \<not> needsValidation (invalidate (run [(sample_env, DocumentDidChange a_graphql)] construct)) \<and>
   timers (invalidate (run [(sample_env, DocumentDidChange a_graphql)] construct)) = 0"
proof -
  have c: "\<not> isReady (construct :: (nat \<times> nat) project)"
    by (simp add: construct_def)
  have r: "\<not> isReady (run [(sample_env, DocumentDidChange a_graphql)] construct)"
      "timers (run [(sample_env, DocumentDidChange a_graphql)] construct) = 0"
    by (simp_all add: construct_def documentDidChange_def sample_env_def a_graphql_def invalidate_def)
  note t = invalidate_not_ready_noop
    [where s = "construct :: (nat \<times> nat) project"
       and ops = "[(sample_env, DocumentDidChange a_graphql)]"]
  have a: "invalidate (construct :: (nat \<times> nat) project) = construct"
    using t c by blast
  have b: "\<not> needsValidation (invalidate (run [(sample_env, DocumentDidChange a_graphql)] construct))"
      "timers (invalidate (run [(sample_env, DocumentDidChange a_graphql)] construct)) =
         timers (run [(sample_env, DocumentDidChange a_graphql)] construct)"
    using t r(1) by blast+
  show ?thesis
    using c r a b by simp
qed

end
